theory Spec2Isabelle
  imports Complex_Main "HOL-Library.Word" "HOL-Library.Multiset" "HOL-Library.Sublist"
begin

unbundle bit_operations_syntax

section \<open>The DFG lookup-texture generator (tools/generate\_dfg\_texture.py)\<close>

text \<open>
  The generator is a Python script. Its integers are Python's unbounded integers
  (\<^typ>\<open>int\<close>). Its floating-point numbers are modelled as real numbers
  (\<^typ>\<open>real\<close>) and the arithmetic of the integrator is exact, with two exceptions
  where the outcome turns on rounding: the product that \<open>write_dfg\<close> truncates to a
  byte is rounded to double precision, and the sampler has a second definition in
  which every operation is rounded. Every operation of the source that can raise is
  a branch of the model: a result is \<open>Inr v\<close>, a raised exception is \<open>Inl e\<close>.
\<close>

subsection \<open>Exceptions as values\<close>

datatype py_error = ZeroDivisionError | ValueError | AssertionError | TypeError | StructError

type_synonym 'a result = "py_error + 'a"

definition bind_r :: "'a result \<Rightarrow> ('a \<Rightarrow> 'b result) \<Rightarrow> 'b result" where
  "bind_r m f = (case m of Inl e \<Rightarrow> Inl e | Inr x \<Rightarrow> f x)"

text \<open>
  \<open>x / y\<close> on floats raises \<open>ZeroDivisionError\<close> when \<open>y\<close> is zero (on a numpy scalar
  the quotient is an infinity or a NaN instead: both are the failure branch here), and
  \<open>math.sqrt\<close> raises \<open>ValueError\<close> on a negative argument.
\<close>

definition py_truediv :: "real \<Rightarrow> real \<Rightarrow> real result" where
  "py_truediv x y = (if y = 0 then Inl ZeroDivisionError else Inr (x / y))"

definition math_sqrt :: "real \<Rightarrow> real result" where
  "math_sqrt x = (if x < 0 then Inl ValueError else Inr (sqrt x))"

subsection \<open>Double-precision rounding\<close>

text \<open>
  Where a claim turns on it, the rounding of IEEE 754 double precision is modelled:
  \<open>round_double x\<close> is the double nearest to \<open>x\<close>, ties to the even significand, with
  53 significant bits and the subnormal spacing \<open>2 ^ -1074\<close> at the bottom of the
  range (overflow to infinity, beyond \<open>2 ^ 1024\<close>, is not modelled). \<open>rne\<close> rounds
  to the nearest integer, ties to even.
\<close>

definition rne :: "real \<Rightarrow> int" where
  "rne x = (let f = \<lfloor>x\<rfloor>; r = x - of_int f
            in if r < 1/2 then f else if 1/2 < r then f + 1 else if even f then f else f + 1)"

definition round_double :: "real \<Rightarrow> real" where
  "round_double x =
    (if x = 0 then 0
     else let e = max (\<lfloor>log 2 \<bar>x\<bar>\<rfloor> - 52) (- 1074)
          in of_int (rne (x / 2 powr of_int e)) * 2 powr of_int e)"

text \<open>Division and \<open>math.sqrt\<close> with the result rounded by \<open>rnd\<close>.\<close>

definition fp_truediv :: "(real \<Rightarrow> real) \<Rightarrow> real \<Rightarrow> real \<Rightarrow> real result" where
  "fp_truediv rnd x y = (if y = 0 then Inl ZeroDivisionError else Inr (rnd (x / y)))"

definition fp_sqrt :: "(real \<Rightarrow> real) \<Rightarrow> real \<Rightarrow> real result" where
  "fp_sqrt rnd x = (if x < 0 then Inl ValueError else Inr (rnd (sqrt x)))"

subsection \<open>saturate\<close>

definition saturate :: "real \<Rightarrow> real" where
  "saturate v = min (max v 0) 1"

subsection \<open>hammersley\<close>

text \<open>
  The five assignments to \<open>bits\<close>. The first one is not masked: \<open>bits << 16\<close> is taken
  on the unbounded integer. numpy keeps the values in 64-bit integers; for
  \<open>0 \<le> i < 2 ^ 47\<close> the first value is below \<open>2 ^ 63\<close> (lemma
  \<open>hammersley_first_step_int64\<close>) and the later ones are masked to 32 bits before
  they are shifted by at most 8, so unbounded integers compute the same values.
\<close>

definition hammersley_bits :: "int \<Rightarrow> int" where
  "hammersley_bits i =
    (let bits = i;
         bits = push_bit 16 bits OR drop_bit 16 bits;
         bits = push_bit 1 (bits AND 0x55555555) OR drop_bit 1 (bits AND 0xAAAAAAAA);
         bits = push_bit 2 (bits AND 0x33333333) OR drop_bit 2 (bits AND 0xCCCCCCCC);
         bits = push_bit 4 (bits AND 0x0F0F0F0F) OR drop_bit 4 (bits AND 0xF0F0F0F0);
         bits = push_bit 8 (bits AND 0x00FF00FF) OR drop_bit 8 (bits AND 0xFF00FF00)
     in bits)"

definition hammersley :: "int \<Rightarrow> int \<Rightarrow> (real \<times> real) result" where
  "hammersley i number_of_samples =
    (let tof = 0.5 / 0x80000000;
         bits = hammersley_bits i
     in bind_r (py_truediv (of_int i) (of_int number_of_samples))
          (\<lambda>u0. Inr (u0, of_int bits * tof)))"

text \<open>
  The specification's reading of the same function: the five swaps carried out in
  32-bit unsigned arithmetic, every step truncated to 32 bits, and the bit reversal
  they are meant to compute: bit \<open>n\<close> of \<open>rev32 i\<close> is bit \<open>31 - n\<close> of \<open>i\<close>.
\<close>

definition hammersley_bits_u32 :: "32 word \<Rightarrow> 32 word" where
  "hammersley_bits_u32 i =
    (let bits = i;
         bits = push_bit 16 bits OR drop_bit 16 bits;
         bits = push_bit 1 (bits AND 0x55555555) OR drop_bit 1 (bits AND 0xAAAAAAAA);
         bits = push_bit 2 (bits AND 0x33333333) OR drop_bit 2 (bits AND 0xCCCCCCCC);
         bits = push_bit 4 (bits AND 0x0F0F0F0F) OR drop_bit 4 (bits AND 0xF0F0F0F0);
         bits = push_bit 8 (bits AND 0x00FF00FF) OR drop_bit 8 (bits AND 0xFF00FF00)
     in bits)"

definition rev32 :: "int \<Rightarrow> int" where
  "rev32 i = horner_sum of_bool 2 (map (\<lambda>n. bit i (31 - n)) [0..<32])"

text \<open>
  For an index below \<open>2 ^ k\<close> the reversal is a multiple of \<open>2 ^ (32 - k)\<close>;
  \<open>rev_index k i\<close> is the quotient, the \<open>k\<close>-bit reversal of \<open>i\<close>.
\<close>

definition rev_index :: "nat \<Rightarrow> nat \<Rightarrow> nat" where
  "rev_index k i = nat (drop_bit (32 - k) (rev32 (int i)))"

subsection \<open>hemisphere\_importance\_sample\_dggx\<close>

type_synonym vec3 = "real \<times> real \<times> real"

definition hemisphere_importance_sample_dggx :: "real \<times> real \<Rightarrow> real \<Rightarrow> vec3 result" where
  "hemisphere_importance_sample_dggx u a =
    (let phi = 2 * pi * fst u
     in bind_r (py_truediv (1 - snd u) (1 + (a + 1) * ((a - 1) * snd u))) (\<lambda>cos_theta2.
        bind_r (math_sqrt cos_theta2) (\<lambda>cos_theta.
        bind_r (math_sqrt (1 - cos_theta2)) (\<lambda>sin_theta.
        Inr (sin_theta * cos phi, sin_theta * sin phi, cos_theta)))))"

text \<open>
  The same function with the rounding of every operation made explicit: \<open>rnd\<close> rounds
  each result, \<open>math_pi\<close> is the constant \<open>math.pi\<close>, and \<open>math_cos\<close>, \<open>math_sin\<close> are the
  library functions. With no rounding it is the function above (lemma
  \<open>hemisphere_fp_exact\<close>); with \<open>round_double\<close> it is the arithmetic Python runs.
\<close>

definition hemisphere_importance_sample_dggx_fp ::
  "(real \<Rightarrow> real) \<Rightarrow> real \<Rightarrow> (real \<Rightarrow> real) \<Rightarrow> (real \<Rightarrow> real)
    \<Rightarrow> real \<times> real \<Rightarrow> real \<Rightarrow> vec3 result" where
  "hemisphere_importance_sample_dggx_fp rnd math_pi math_cos math_sin u a =
    (let phi = rnd (rnd (2 * math_pi) * fst u)
     in bind_r (fp_truediv rnd (rnd (1 - snd u))
                  (rnd (1 + rnd (rnd (a + 1) * rnd (rnd (a - 1) * snd u))))) (\<lambda>cos_theta2.
        bind_r (fp_sqrt rnd cos_theta2) (\<lambda>cos_theta.
        bind_r (fp_sqrt rnd (rnd (1 - cos_theta2))) (\<lambda>sin_theta.
        Inr (rnd (sin_theta * math_cos phi), rnd (sin_theta * math_sin phi), cos_theta)))))"

subsection \<open>visibility\<close>

text \<open>The divisor \<open>ggxv + ggxl\<close> of the last line of \<open>visibility\<close>, then the function.\<close>

definition visibility_denominator :: "real \<Rightarrow> real \<Rightarrow> real \<Rightarrow> real result" where
  "visibility_denominator nov nol a =
    (let a2 = a * a
     in bind_r (math_sqrt ((nol - nol * a2) * nol + a2)) (\<lambda>sl.
        let ggxl = nov * sl
        in bind_r (math_sqrt ((nov - nov * a2) * nov + a2)) (\<lambda>sv.
           let ggxv = nol * sv
           in Inr (ggxv + ggxl))))"

definition visibility :: "real \<Rightarrow> real \<Rightarrow> real \<Rightarrow> real result" where
  "visibility nov nol a = bind_r (visibility_denominator nov nol a) (py_truediv 0.5)"

subsection \<open>calculate\_dfg\<close>

definition dot :: "vec3 \<Rightarrow> vec3 \<Rightarrow> real" where
  "dot v h = (case (v, h) of ((v0, v1, v2), (h0, h1, h2)) \<Rightarrow> v0 * h0 + v1 * h1 + v2 * h2)"

definition z_of :: "vec3 \<Rightarrow> real" where
  "z_of v = snd (snd v)"

text \<open>\<open>l = 2.0 * numpy.multiply(numpy.dot(v, h), h) - v\<close>, component by component.\<close>

definition reflect :: "vec3 \<Rightarrow> vec3 \<Rightarrow> vec3" where
  "reflect v h =
    (case (v, h) of ((v0, v1, v2), (h0, h1, h2)) \<Rightarrow>
       (2 * (dot v h * h0) - v0, 2 * (dot v h * h1) - v1, 2 * (dot v h * h2) - v2))"

text \<open>
  One pass of the loop body on the accumulator \<open>r\<close>. The function called for the
  visibility term is a parameter, \<open>visibility_fn\<close>, so that a statement can say at
  which arguments the body calls it; \<open>calculate_dfg\<close> passes \<open>visibility\<close>.
\<close>

definition dfg_sample ::
  "(real \<Rightarrow> real \<Rightarrow> real \<Rightarrow> real result) \<Rightarrow> vec3 \<Rightarrow> real \<Rightarrow> real \<Rightarrow> int
    \<Rightarrow> real \<times> real \<Rightarrow> int \<Rightarrow> (real \<times> real) result" where
  "dfg_sample visibility_fn v nov a number_of_samples r i =
    bind_r (hammersley i number_of_samples) (\<lambda>u.
    bind_r (hemisphere_importance_sample_dggx u a) (\<lambda>h.
    let l = reflect v h;
        voh = saturate (dot v h);
        nol = saturate (z_of l);
        noh = saturate (z_of h)
    in if nol > 0
       then bind_r (visibility_fn nov nol a) (\<lambda>visibility_value.
            bind_r (py_truediv voh noh) (\<lambda>quotient.
            let vis = visibility_value * nol * quotient;
                fc = (1 - voh) ^ 5
            in Inr (fst r + vis * fc, snd r + vis)))
       else Inr r))"

fun dfg_loop ::
  "(real \<Rightarrow> real \<Rightarrow> real \<Rightarrow> real result) \<Rightarrow> vec3 \<Rightarrow> real \<Rightarrow> real \<Rightarrow> int
    \<Rightarrow> int list \<Rightarrow> real \<times> real \<Rightarrow> (real \<times> real) result" where
  "dfg_loop visibility_fn v nov a number_of_samples [] r = Inr r"
| "dfg_loop visibility_fn v nov a number_of_samples (i # rest) r =
     bind_r (dfg_sample visibility_fn v nov a number_of_samples r i)
       (dfg_loop visibility_fn v nov a number_of_samples rest)"

text \<open>\<open>range(n)\<close> for a Python integer \<open>n\<close>: empty when \<open>n \<le> 0\<close>.\<close>

definition py_range :: "int \<Rightarrow> int list" where
  "py_range n = map int [0..<nat n]"

definition calculate_dfg_with ::
  "(real \<Rightarrow> real \<Rightarrow> real \<Rightarrow> real result) \<Rightarrow> real \<Rightarrow> real \<Rightarrow> int \<Rightarrow> real list result" where
  "calculate_dfg_with visibility_fn nov a number_of_samples =
    bind_r (math_sqrt (1 - nov * nov)) (\<lambda>v0.
    let v = (v0, 0, nov);
        r = (0, 0)
    in bind_r (dfg_loop visibility_fn v nov a number_of_samples
                 (py_range number_of_samples) r) (\<lambda>r.
       bind_r (py_truediv 4 (of_int number_of_samples)) (\<lambda>scale.
       Inr [fst r * scale, snd r * scale])))"

definition calculate_dfg :: "real \<Rightarrow> real \<Rightarrow> int \<Rightarrow> real list result" where
  "calculate_dfg = calculate_dfg_with visibility"

text \<open>
  A closed form of the loop in exact arithmetic, assembled from the definitions above;
  the proofs about the accumulated channels go through it.
\<close>

definition ggx_half_vector :: "real \<times> real \<Rightarrow> real \<Rightarrow> vec3" where
  "ggx_half_vector u a =
    (let phi = 2 * pi * fst u;
         cos_theta2 = (1 - snd u) / (1 + (a + 1) * ((a - 1) * snd u))
     in (sqrt (1 - cos_theta2) * cos phi, sqrt (1 - cos_theta2) * sin phi, sqrt cos_theta2))"

definition visibility_term :: "real \<Rightarrow> real \<Rightarrow> real \<Rightarrow> real" where
  "visibility_term nov nol a =
     0.5 / (nol * sqrt ((nov - nov * (a * a)) * nov + a * a)
          + nov * sqrt ((nol - nol * (a * a)) * nol + a * a))"




text \<open>
  The reference split-sum, written out from the specification's formulas alone: the
  view direction is \<open>(sqrt (1 - nov\<^sup>2), 0, nov)\<close>, \<open>h = (hx, hy, hz)\<close> is the half vector of
  a sample and \<open>vis\<close> its visibility term; \<open>clamp01\<close> clamps to \<open>[0, 1]\<close>;
  \<open>reference_nol\<close> is the clamped \<open>z\<close> component of \<open>l = 2 (v . h) h - v\<close>.
\<close>

definition clamp01 :: "real \<Rightarrow> real" where
  "clamp01 x = (if x < 0 then 0 else if 1 < x then 1 else x)"

definition reference_nol :: "real \<Rightarrow> vec3 \<Rightarrow> real" where
  "reference_nol nov h =
    (case h of (hx, hy, hz) \<Rightarrow>
       clamp01 (2 * (sqrt (1 - nov\<^sup>2) * hx + 0 * hy + nov * hz) * hz - nov))"

definition reference_contribution :: "real \<Rightarrow> vec3 \<Rightarrow> real \<Rightarrow> real \<times> real" where
  "reference_contribution nov h vis =
    (case h of (hx, hy, hz) \<Rightarrow>
       let v_dot_h = sqrt (1 - nov\<^sup>2) * hx + 0 * hy + nov * hz;
           voh = clamp01 v_dot_h;
           nol = clamp01 (2 * v_dot_h * hz - nov);
           noh = clamp01 hz
       in if 0 < nol
          then (vis * nol * (voh / noh) * (1 - voh) ^ 5, vis * nol * (voh / noh))
          else (0, 0))"

definition reference_split_sum :: "real \<Rightarrow> nat \<Rightarrow> (nat \<Rightarrow> vec3) \<Rightarrow> (nat \<Rightarrow> real) \<Rightarrow> real list" where
  "reference_split_sum nov N h vis =
    [4 / real N * (\<Sum>i<N. fst (reference_contribution nov (h i) (vis i))),
     4 / real N * (\<Sum>i<N. snd (reference_contribution nov (h i) (vis i)))]"

subsection \<open>write\_dfg\<close>

type_synonym byte = "8 word"

text \<open>\<open>int(x)\<close> on a float truncates towards zero.\<close>

definition py_int :: "real \<Rightarrow> int" where
  "py_int x = (if 0 \<le> x then \<lfloor>x\<rfloor> else \<lceil>x\<rceil>)"

text \<open>
  \<open>struct.pack('BBB', ...)\<close>: three unsigned bytes; \<open>struct.error\<close> when the number of
  arguments is not three or one of them is outside \<open>0..255\<close>.
\<close>

definition struct_pack_BBB :: "int list \<Rightarrow> byte list result" where
  "struct_pack_BBB xs =
    (if length xs = 3 \<and> (\<forall>x \<in> set xs. 0 \<le> x \<and> x \<le> 255)
     then Inr (map word_of_int xs) else Inl StructError)"

text \<open>
  The file object is the list of bytes written so far. \<open>saturate(c) * 255\<close> is a
  double product, rounded before \<open>int\<close> truncates it. The half-precision encoding
  of numpy (\<open>numpy.array(dfg, dtype=numpy.float16).tobytes()\<close>) is not part of the
  repository: it is the parameter \<open>float16_bytes\<close>.
\<close>

definition write_dfg :: "(real \<Rightarrow> byte list) \<Rightarrow> byte list \<Rightarrow> real list \<Rightarrow> string \<Rightarrow> byte list result" where
  "write_dfg float16_bytes fp dfg file_format =
    (if length dfg \<noteq> 2 then Inl AssertionError
     else if file_format = ''raw''
       then Inr (fp @ concat (map float16_bytes dfg))
     else if file_format = ''ppm''
       then bind_r (struct_pack_BBB
                     (map (\<lambda>c. py_int (round_double (saturate c * 255))) dfg @ [0]))
              (\<lambda>packed. Inr (fp @ packed))
     else Inr fp)"

subsection \<open>main\<close>

text \<open>
  The namespace \<open>parse_args\<close> returns. \<open>--resolution\<close> declares no type: the
  attribute is the integer default 64, or the string given on the command line.
  \<open>--samples\<close> is converted by \<open>type=int\<close>; \<open>--format\<close> is one of the two choices.
\<close>

datatype resolution_arg = Default_64 | Given string

record args =
  resolution :: resolution_arg
  samples :: int
  file_format :: string

definition resolution_text :: "resolution_arg \<Rightarrow> string" where
  "resolution_text r = (case r of Default_64 \<Rightarrow> ''64'' | Given s \<Rightarrow> s)"

definition encode :: "string \<Rightarrow> byte list" where
  "encode s = map of_char s"

definition ppm_header :: "resolution_arg \<Rightarrow> byte list" where
  "ppm_header r =
     encode (''P6'' @ [CHR 0x0A] @ resolution_text r @ '' '' @ resolution_text r
             @ [CHR 0x0A] @ ''255'' @ [CHR 0x0A])"

text \<open>The body of the two loops for one texel: row \<open>t\<close>, column \<open>s\<close>.\<close>

definition texel ::
  "(real \<Rightarrow> byte list) \<Rightarrow> args \<Rightarrow> int \<Rightarrow> byte list \<Rightarrow> int \<times> int \<Rightarrow> byte list result" where
  "texel float16_bytes args res fp ts =
    (case ts of (t, s) \<Rightarrow>
      bind_r (py_truediv (of_int s + 0.5) (of_int res)) (\<lambda>nov.
      bind_r (py_truediv (of_int t + 0.5) (of_int res)) (\<lambda>perceptual_roughness.
      let a = perceptual_roughness ^ 2
      in bind_r (calculate_dfg nov a (samples args)) (\<lambda>dfg.
         write_dfg float16_bytes fp dfg (file_format args)))))"

text \<open>
  The loops stop at the first exception; what was written before it stays in the
  file. The result is the file's content and the exception, if any.
\<close>

fun texel_loop ::
  "(real \<Rightarrow> byte list) \<Rightarrow> args \<Rightarrow> int \<Rightarrow> (int \<times> int) list \<Rightarrow> byte list
    \<Rightarrow> byte list \<times> py_error option" where
  "texel_loop float16_bytes args res [] fp = (fp, None)"
| "texel_loop float16_bytes args res (ts # rest) fp =
     (case texel float16_bytes args res fp ts of
        Inl e \<Rightarrow> (fp, Some e)
      | Inr fp' \<Rightarrow> texel_loop float16_bytes args res rest fp')"

definition main :: "(real \<Rightarrow> byte list) \<Rightarrow> args \<Rightarrow> byte list \<times> py_error option" where
  "main float16_bytes args =
    (let fp = (if file_format args = ''ppm'' then ppm_header (resolution args) else [])
     in case resolution args of
          Given s \<Rightarrow> (fp, Some TypeError)
        | Default_64 \<Rightarrow>
            texel_loop float16_bytes args 64 (List.product (py_range 64) (py_range 64)) fp)"

section \<open>Properties of hammersley\<close>

lemma below_32_cases:
  "(n::nat) < 32 \<Longrightarrow>
   n \<in> {0,1,2,3,4,5,6,7,8,9,10,11,12,13,14,15,16,17,18,19,20,21,22,23,24,25,26,27,28,29,30,31}"
  by (simp only: insert_iff empty_iff) presburger

lemma bit_swap_int:
  fixes b :: int
  shows "bit (push_bit s (b AND lo) OR drop_bit s (b AND hi)) n \<longleftrightarrow>
         (s \<le> n \<and> bit b (n - s) \<and> bit lo (n - s)) \<or> (bit b (n + s) \<and> bit hi (n + s))"
  by (auto simp add: bit_or_iff bit_push_bit_iff bit_drop_bit_eq bit_and_iff add.commute)

lemma bit_rotate_int:
  fixes b :: int
  shows "bit (push_bit s b OR drop_bit s b) n \<longleftrightarrow> (s \<le> n \<and> bit b (n - s)) \<or> bit b (n + s)"
  by (auto simp add: bit_or_iff bit_push_bit_iff bit_drop_bit_eq add.commute)

lemma not_bit_above:
  fixes k :: int
  assumes "0 \<le> k" "k < 2 ^ w" "w \<le> m"
  shows "\<not> bit k m"
proof -
  have "take_bit w k = k"
    using assms by (simp add: take_bit_int_eq_self)
  then have "bit k m = bit (take_bit w k) m"
    by simp
  also have "\<dots> = False"
    using assms by (simp add: bit_take_bit_iff)
  finally show ?thesis by simp
qed

lemma not_bit_swap_above:
  fixes b lo hi :: int
  assumes "0 \<le> lo" "lo < 2 ^ (32 - s)" "0 \<le> hi" "hi < 2 ^ 32" "32 \<le> n" "s \<le> 32"
  shows "\<not> bit (push_bit s (b AND lo) OR drop_bit s (b AND hi)) n"
proof -
  have "\<not> bit lo (n - s)"
    using assms by (intro not_bit_above [of lo "32 - s"]) simp_all
  moreover have "\<not> bit hi (n + s)"
    using assms by (intro not_bit_above [of hi 32]) simp_all
  ultimately show ?thesis
    unfolding bit_swap_int by simp
qed

lemma bit_hammersley_bits_low:
  "n < 32 \<Longrightarrow> bit (hammersley_bits (take_bit 32 j)) n = bit j (31 - n)"
  unfolding hammersley_bits_def Let_def
  apply (drule below_32_cases)
  apply (simp only: bit_swap_int bit_rotate_int)
  apply (elim insertE emptyE)
  apply (simp_all add: bit_take_bit_iff)
  done

lemma bit_hammersley_bits_high: "32 \<le> n \<Longrightarrow> \<not> bit (hammersley_bits i) n"
  unfolding hammersley_bits_def Let_def
  by (rule not_bit_swap_above) simp_all

lemma hammersley_bits_range: "0 \<le> hammersley_bits i \<and> hammersley_bits i < 2 ^ 32"
proof -
  have "take_bit 32 (hammersley_bits i) = hammersley_bits i"
  proof (rule bit_eqI)
    fix n
    show "bit (take_bit 32 (hammersley_bits i)) n = bit (hammersley_bits i) n"
      unfolding bit_take_bit_iff using bit_hammersley_bits_high [of n i]
      by (cases "n < 32") auto
  qed
  then show ?thesis
    by (metis take_bit_nonnegative take_bit_int_less_exp)
qed

lemma hammersley_first_step_int64:
  fixes i :: int
  assumes "0 \<le> i" "i < 2 ^ 47"
  shows "0 \<le> push_bit 16 i OR drop_bit 16 i \<and> push_bit 16 i OR drop_bit 16 i < 2 ^ 63"
proof -
  have "take_bit 63 (push_bit 16 i OR drop_bit 16 i) = push_bit 16 i OR drop_bit 16 i"
  proof (rule bit_eqI)
    fix n
    have high: "\<not> bit i m" if "47 \<le> m" for m
      using assms that by (intro not_bit_above [of i 47]) simp_all
    show "bit (take_bit 63 (push_bit 16 i OR drop_bit 16 i)) n
        = bit (push_bit 16 i OR drop_bit 16 i) n"
      unfolding bit_take_bit_iff bit_rotate_int
      using high [of "n - 16"] high [of "n + 16"]
      by (cases "n < 63") auto
  qed
  then show ?thesis
    by (metis take_bit_nonnegative take_bit_int_less_exp)
qed

text \<open>
  After the first assignment \<open>bits\<close> can be wider than 32 bits; the masks of the
  second assignment drop what lies above.
\<close>

lemma hammersley_first_step_wide:
  "push_bit 16 (65536 :: int) OR drop_bit 16 65536 = 2 ^ 32 + 1 \<and> hammersley_bits 65536 = 2 ^ 15"
  by (simp add: hammersley_bits_def)

lemma bit_rev32: "bit (rev32 i) n \<longleftrightarrow> n < 32 \<and> bit i (31 - n)"
  by (auto simp add: rev32_def bit_horner_sum_bit_iff)

lemma hammersley_bits_rev32:
  assumes "0 \<le> i" "i < 2 ^ 32"
  shows "hammersley_bits i = rev32 i"
proof (rule bit_eqI)
  fix n
  have i: "take_bit 32 i = i"
    using assms by (simp add: take_bit_int_eq_self)
  show "bit (hammersley_bits i) n = bit (rev32 i) n"
  proof (cases "n < 32")
    case True
    then show ?thesis
      using bit_hammersley_bits_low [of n i] by (simp add: i bit_rev32)
  next
    case False
    then show ?thesis
      using bit_hammersley_bits_high [of n i] by (simp add: bit_rev32)
  qed
qed

lemma bit_swap_word:
  fixes b :: "32 word"
  shows "bit (push_bit s (b AND lo) OR drop_bit s (b AND hi)) n \<longleftrightarrow>
         (s \<le> n \<and> n < 32 \<and> bit b (n - s) \<and> bit lo (n - s)) \<or> (bit b (n + s) \<and> bit hi (n + s))"
  by (auto simp add: bit_or_iff bit_push_bit_iff bit_drop_bit_eq bit_and_iff add.commute)

lemma bit_rotate_word:
  fixes b :: "32 word"
  shows "bit (push_bit s b OR drop_bit s b) n \<longleftrightarrow>
         (s \<le> n \<and> n < 32 \<and> bit b (n - s)) \<or> bit b (n + s)"
  by (auto simp add: bit_or_iff bit_push_bit_iff bit_drop_bit_eq add.commute)

lemma not_bit_word_above: "32 \<le> m \<Longrightarrow> \<not> bit (w :: 32 word) m"
  using bit_imp_le_length [of w m] by auto

lemma bit_hammersley_bits_u32:
  "n < 32 \<Longrightarrow> bit (hammersley_bits_u32 w) n = bit w (31 - n)"
  unfolding hammersley_bits_u32_def Let_def
  apply (drule below_32_cases)
  apply (simp only: bit_swap_word bit_rotate_word)
  apply (elim insertE emptyE)
  apply (simp_all add: not_bit_word_above)
  done

lemma hammersley_bits_u32_uint:
  assumes "0 \<le> i" "i < 2 ^ 32"
  shows "hammersley_bits i = uint (hammersley_bits_u32 (word_of_int i))"
proof (rule bit_eqI)
  fix n
  have i: "take_bit 32 i = i"
    using assms by (simp add: take_bit_int_eq_self)
  show "bit (hammersley_bits i) n = bit (uint (hammersley_bits_u32 (word_of_int i))) n"
  proof (cases "n < 32")
    case True
    moreover have "31 - n < 32"
      by arith
    ultimately show ?thesis
      using bit_hammersley_bits_low [of n i] bit_hammersley_bits_u32 [of n "word_of_int i"]
      by (simp add: i bit_uint_iff bit_word_of_int_iff)
  next
    case False
    then show ?thesis
      using bit_hammersley_bits_high [of n i] by (simp add: bit_uint_iff)
  qed
qed

lemma hammersley_value:
  "N \<noteq> 0 \<Longrightarrow>
   hammersley i N = Inr (of_int i / of_int N, of_int (hammersley_bits i) / 2 ^ 32)"
  by (simp add: hammersley_def py_truediv_def bind_r_def)

text \<open>
  Claim C2. For a sample index \<open>0 \<le> i < 2 ^ 32\<close> and a sample count \<open>N \<ge> 1\<close>,
  \<open>hammersley i N\<close> returns the pair \<open>(i / N, rev32 i / 2 ^ 32)\<close>, where \<open>rev32\<close> is the
  32-bit bit reversal; and the value the source computes with its unmasked first
  shift on unbounded integers is the value that exact 32-bit unsigned arithmetic,
  truncating at every step, computes.
\<close>

theorem hammersley_is_bit_reversal:
  assumes "0 \<le> i" "i < 2 ^ 32" "1 \<le> N"
  shows "hammersley i N = Inr (of_int i / of_int N, of_int (rev32 i) / 2 ^ 32)
       \<and> hammersley_bits i = uint (hammersley_bits_u32 (word_of_int i))"
  using assms hammersley_value [of N i] hammersley_bits_rev32 [of i]
    hammersley_bits_u32_uint [of i]
  by simp

theorem hammersley_is_bit_reversal_witness:
  "(0::int) \<le> 6 \<and> (6::int) < 2 ^ 32 \<and> (1::int) \<le> 8
   \<and> hammersley 6 8 = Inr (3 / 4, 3 / 8)
   \<and> hammersley_bits 6 = uint (hammersley_bits_u32 6)"
  using hammersley_is_bit_reversal [of 6 8]
  by (simp add: rev32_def upt_rec bit_iff_odd)

subsection \<open>The second coordinates on a power-of-two grid\<close>

lemma rev32_rev32:
  assumes "0 \<le> i" "i < 2 ^ 32"
  shows "rev32 (rev32 i) = i"
proof (rule bit_eqI)
  fix n
  show "bit (rev32 (rev32 i)) n = bit i n"
  proof (cases "n < 32")
    case True
    then have "31 - (31 - n) = n" "31 - n < 32"
      by arith+
    with True show ?thesis
      by (simp add: bit_rev32)
  next
    case False
    then show ?thesis
      using not_bit_above [of i 32 n] assms by (simp add: bit_rev32)
  qed
qed

lemma rev32_range: "0 \<le> rev32 i \<and> rev32 i < 2 ^ 32"
proof -
  have "take_bit 32 (rev32 i) = rev32 i"
    by (rule bit_eqI) (auto simp add: bit_take_bit_iff bit_rev32)
  then show ?thesis
    by (metis take_bit_nonnegative take_bit_int_less_exp)
qed

lemma rev32_low_bits:
  assumes "k \<le> 32" "i < 2 ^ k"
  shows "rev32 (int i) = int (rev_index k i) * 2 ^ (32 - k)"
proof -
  have "take_bit (32 - k) (rev32 (int i)) = 0"
  proof (rule bit_eqI)
    fix n
    have "\<not> bit (int i) (31 - n)" if "n < 32 - k"
    proof (rule not_bit_above [of _ k])
      show "int i < 2 ^ k"
        using assms(2) by (metis of_nat_less_iff of_nat_numeral of_nat_power)
      show "k \<le> 31 - n"
        using that assms(1) by arith
    qed simp
    then show "bit (take_bit (32 - k) (rev32 (int i))) n = bit (0::int) n"
      by (auto simp add: bit_take_bit_iff bit_rev32)
  qed
  then have "push_bit (32 - k) (drop_bit (32 - k) (rev32 (int i))) = rev32 (int i)"
    using bits_ident [of "32 - k" "rev32 (int i)"] by simp
  moreover have "0 \<le> drop_bit (32 - k) (rev32 (int i))"
    using rev32_range [of "int i"] by simp
  ultimately show ?thesis
    by (simp add: rev_index_def push_bit_eq_mult)
qed

lemma rev_index_less:
  assumes "k \<le> 32" "i < 2 ^ k"
  shows "rev_index k i < 2 ^ k"
proof -
  have "int (rev_index k i) * 2 ^ (32 - k) < 2 ^ k * 2 ^ (32 - k)"
    using rev32_low_bits [OF assms] rev32_range [of "int i"] assms(1)
    by (simp flip: power_add)
  then have "int (rev_index k i) < 2 ^ k"
    by simp
  then show ?thesis
    by (metis of_nat_less_iff of_nat_numeral of_nat_power)
qed

lemma rev_index_inj:
  assumes "k \<le> 32"
  shows "inj_on (rev_index k) {..<2 ^ k}"
proof (rule inj_onI)
  fix i j :: nat
  assume ij: "i \<in> {..<2 ^ k}" "j \<in> {..<2 ^ k}" and eq: "rev_index k i = rev_index k j"
  have le: "(2::nat) ^ k \<le> 2 ^ 32"
    by (rule power_increasing) (use assms in simp_all)
  have bound: "int n < 2 ^ 32" if "n < 2 ^ k" for n :: nat
  proof -
    have "n < 2 ^ 32" using that le by simp
    then show ?thesis by (metis of_nat_less_iff of_nat_numeral of_nat_power)
  qed
  have "rev32 (int i) = rev32 (int j)"
    using ij eq rev32_low_bits [OF assms, of i] rev32_low_bits [OF assms, of j] by simp
  then have "rev32 (rev32 (int i)) = rev32 (rev32 (int j))"
    by simp
  then have "int i = int j"
    using ij bound [of i] bound [of j] by (simp add: rev32_rev32)
  then show "i = j"
    by simp
qed

lemma rev_index_image:
  assumes "k \<le> 32"
  shows "rev_index k ` {..<2 ^ k} = {..<2 ^ k}"
  using assms
  by (intro endo_inj_surj rev_index_inj) (auto simp add: rev_index_less)

lemma hammersley_u1_rev_index:
  assumes "k \<le> 32" "i < 2 ^ k"
  shows "map_sum id snd (hammersley (int i) (2 ^ k)) = Inr (real (rev_index k i) / 2 ^ k)"
proof -
  have i32: "int i < 2 ^ 32"
  proof -
    have "(2::nat) ^ k \<le> 2 ^ 32"
      by (rule power_increasing) (use assms in simp_all)
    then have "i < 2 ^ 32"
      using assms(2) by (rule less_le_trans [rotated])
    then show ?thesis by (metis of_nat_less_iff of_nat_numeral of_nat_power)
  qed
  have split: "(2::real) ^ 32 = 2 ^ k * 2 ^ (32 - k)"
    using assms(1) by (simp flip: power_add)
  have scaled: "(of_int (rev32 (int i)) :: real) = real (rev_index k i) * 2 ^ (32 - k)"
    by (simp add: rev32_low_bits [OF assms])
  have "(of_int (rev32 (int i)) :: real) / 2 ^ 32
      = (real (rev_index k i) * 2 ^ (32 - k)) / (2 ^ k * 2 ^ (32 - k))"
    by (simp only: split scaled)
  also have "\<dots> = real (rev_index k i) / 2 ^ k"
    by simp
  finally have "(of_int (rev32 (int i)) :: real) / 2 ^ 32 = real (rev_index k i) / 2 ^ k" .
  then show ?thesis
    using hammersley_value [of "2 ^ k" "int i"] hammersley_bits_rev32 [of "int i"] i32
    by simp
qed

lemma mset_map_upt:
  "mset (map f [0..<n]) = image_mset f (mset_set {..<n})"
  by (simp only: mset_map mset_upt atLeast0LessThan)

text \<open>
  Claim C5, as amended. For \<open>N = 2 ^ k\<close> with \<open>k \<le> 32\<close>, the second coordinates
  \<open>u1\<close> of \<open>hammersley i N\<close> for \<open>i\<close> in \<open>[0, N)\<close> are, as a multiset, exactly the grid
  \<open>0, 1 / N, \<dots>, (N - 1) / N\<close>: no call fails, and every grid point is hit once.
\<close>

theorem hammersley_u1_permutes_grid:
  assumes "k \<le> 32"
  shows "mset (map (\<lambda>i. map_sum id snd (hammersley (int i) (2 ^ k))) [0..<2 ^ k])
       = mset (map (\<lambda>j. Inr (real j / 2 ^ k)) [0..<2 ^ k])"
proof -
  let ?f = "\<lambda>i. map_sum id snd (hammersley (int i) (2 ^ k))"
  let ?g = "\<lambda>j. (Inr (real j / 2 ^ k) :: py_error + real)"
  let ?A = "{..<(2::nat) ^ k}"
  have "image_mset ?f (mset_set ?A) = image_mset (\<lambda>i. ?g (rev_index k i)) (mset_set ?A)"
    using assms by (intro image_mset_cong) (simp add: hammersley_u1_rev_index)
  also have "\<dots> = image_mset ?g (image_mset (rev_index k) (mset_set ?A))"
    by (simp only: multiset.map_comp comp_def)
  also have "image_mset (rev_index k) (mset_set ?A) = mset_set (rev_index k ` ?A)"
    using assms by (intro image_mset_mset_set rev_index_inj)
  also have "rev_index k ` ?A = ?A"
    using assms by (rule rev_index_image)
  finally show ?thesis
    by (simp only: mset_map_upt)
qed

theorem hammersley_u1_permutes_grid_witness:
  "(2::nat) \<le> 32 \<and>
   mset (map (\<lambda>i. map_sum id snd (hammersley (int i) (2 ^ 2))) [0..<2 ^ 2])
     = mset (map (\<lambda>j. Inr (real j / 2 ^ 2)) [0..<2 ^ 2])"
  using hammersley_u1_permutes_grid [of 2] by simp

text \<open>
  The claim as written, for every power of two, fails at \<open>N = 2 ^ 33\<close>: every \<open>u1\<close> is
  a multiple of \<open>1 / 2 ^ 32\<close>, so the grid point \<open>1 / 2 ^ 33\<close> is never produced.
\<close>

theorem hammersley_u1_grid_counterexample:
  "mset (map (\<lambda>i. map_sum id snd (hammersley (int i) (2 ^ 33))) [0..<2 ^ 33])
     \<noteq> mset (map (\<lambda>j. Inr (real j / 2 ^ 33)) [0..<2 ^ 33])"
proof
  let ?N = "(2::nat) ^ 33"
  let ?f = "\<lambda>i. map_sum id snd (hammersley (int i) (2 ^ 33))"
  let ?g = "\<lambda>j. (Inr (real j / 2 ^ 33) :: py_error + real)"
  assume "mset (map ?f [0..<?N]) = mset (map ?g [0..<?N])"
  then have "set (map ?f [0..<?N]) = set (map ?g [0..<?N])"
    by (rule mset_eq_setD)
  moreover have "?g 1 \<in> set (map ?g [0..<?N])"
    unfolding set_map set_upt by (rule imageI) simp
  ultimately have "?g 1 \<in> ?f ` set [0..<?N]"
    by (simp only: set_map)
  then obtain i where "?g 1 = ?f i"
    by (rule imageE)
  moreover have "?f i = Inr (of_int (hammersley_bits (int i)) / 2 ^ 32)"
    using hammersley_value [of "2 ^ 33" "int i"] by simp
  ultimately have "(of_int (hammersley_bits (int i)) :: real) / 2 ^ 32 = 1 / 2 ^ 33"
    by simp
  then have "(of_int (2 * hammersley_bits (int i)) :: real) = of_int 1"
    by simp
  then have "2 * hammersley_bits (int i) = 1"
    by (simp only: of_int_eq_iff)
  then show False
    by presburger
qed


section \<open>Double-precision rounding\<close>

lemma floor_log2:
  assumes "2 powr of_int k \<le> x" "x < 2 powr of_int (k + 1)"
  shows "\<lfloor>log 2 x\<rfloor> = k"
proof (rule floor_unique)
  have x: "0 < x"
    using assms(1) by (rule less_le_trans [rotated]) simp
  show "of_int k \<le> log 2 x"
    using assms(1) x by (simp add: le_log_iff)
  show "log 2 x < of_int k + 1"
    using assms(2) x by (simp add: log_less_iff add.commute)
qed

lemma round_double_small:
  assumes "1 / 2 ^ n \<le> \<bar>x\<bar>" "\<bar>x\<bar> < 2 / 2 ^ n" "n \<le> 1022"
  shows "round_double x = of_int (rne (x * 2 ^ (n + 52))) / 2 ^ (n + 52)"
proof -
  have p: "(2::real) powr of_int (- int m) = 1 / 2 ^ m" for m
    by (simp add: powr_minus powr_realpow inverse_eq_divide)
  have step: "(2::real) powr (y + 1) = 2 * 2 powr y" for y
    by (simp add: powr_add)
  have q: "(2::real) powr of_int (- int n + 1) = 2 / 2 ^ n"
    unfolding of_int_add of_int_1 step p by simp
  have "\<lfloor>log 2 \<bar>x\<bar>\<rfloor> = - int n"
    using assms(1,2) by (intro floor_log2) (simp_all only: p q)
  moreover have "x \<noteq> 0"
  proof -
    have "(0::real) < 1 / 2 ^ n" by simp
    with assms(1) have "0 < \<bar>x\<bar>" by linarith
    then show ?thesis by auto
  qed
  moreover have "max (- int n - 52) (- 1074) = - int (n + 52)"
    using assms(3) by simp
  ultimately show ?thesis
    by (simp add: round_double_def p Let_def del: of_int_minus of_nat_add)
qed

lemma round_double_large:
  assumes "2 ^ n \<le> \<bar>x\<bar>" "\<bar>x\<bar> < 2 * 2 ^ n" "n \<le> 52"
  shows "round_double x = of_int (rne (x * 2 ^ (52 - n))) / 2 ^ (52 - n)"
proof -
  have p: "(2::real) powr of_int (- int m) = 1 / 2 ^ m" for m
    by (simp add: powr_minus powr_realpow inverse_eq_divide)
  have q: "(2::real) powr of_int (int m) = 2 ^ m" for m
    by (simp add: powr_realpow)
  have step: "(2::real) powr (y + 1) = 2 * 2 powr y" for y
    by (simp add: powr_add)
  have q': "(2::real) powr of_int (int n + 1) = 2 * 2 ^ n"
    unfolding of_int_add of_int_1 step q by simp
  have "\<lfloor>log 2 \<bar>x\<bar>\<rfloor> = int n"
    using assms(1,2) by (intro floor_log2) (simp_all only: q q')
  moreover have "x \<noteq> 0"
  proof -
    have "(0::real) < 2 ^ n" by simp
    with assms(1) have "0 < \<bar>x\<bar>" by linarith
    then show ?thesis by auto
  qed
  moreover have "max (int n - 52) (- 1074) = - int (52 - n)"
    using assms(3) by simp
  ultimately show ?thesis
    by (simp add: round_double_def p Let_def del: of_int_minus of_nat_diff)
qed

lemma rne_nonneg: "0 \<le> x \<Longrightarrow> 0 \<le> rne x"
  by (auto simp add: rne_def Let_def)

lemma rne_le:
  assumes "x \<le> of_int m"
  shows "rne x \<le> m"
proof -
  have f: "\<lfloor>x\<rfloor> \<le> m"
    using assms by (simp add: floor_le_iff)
  show ?thesis
  proof (cases "\<lfloor>x\<rfloor> = m")
    case True
    then have "x - of_int \<lfloor>x\<rfloor> \<le> 0"
      using assms by simp
    then show ?thesis
      using True by (simp add: rne_def Let_def)
  next
    case False
    then have "\<lfloor>x\<rfloor> + 1 \<le> m"
      using f by simp
    then show ?thesis
      by (auto simp add: rne_def Let_def)
  qed
qed

text \<open>Rounding keeps a value of \<open>[0, 255]\<close> within \<open>[0, 255]\<close>.\<close>

lemma round_double_byte:
  assumes "0 \<le> x" "x \<le> 255"
  shows "0 \<le> round_double x \<and> round_double x \<le> 255"
proof (cases "x = 0")
  case True
  then show ?thesis by (simp add: round_double_def)
next
  case False
  then have x: "0 < x"
    using assms(1) by simp
  define e where "e = max (\<lfloor>log 2 \<bar>x\<bar>\<rfloor> - 52) (- 1074)"
  have "log 2 x < 8"
    using x assms(2) by (simp add: log_less_iff)
  then have "\<lfloor>log 2 \<bar>x\<bar>\<rfloor> < 8"
    using x by (simp add: floor_less_iff)
  then have "e \<le> 0"
    by (simp add: e_def)
  then obtain m :: nat where m: "e = - int m"
    by (metis nat_0_le neg_0_le_iff_le minus_minus)
  have q: "(2::real) powr of_int e = 1 / 2 ^ m"
    by (simp add: m powr_minus powr_realpow inverse_eq_divide)
  have r: "round_double x = of_int (rne (x * 2 ^ m)) / 2 ^ m"
    using False by (simp add: round_double_def Let_def e_def [symmetric] q)
  have "0 \<le> x * 2 ^ m"
    using assms(1) by simp
  then have lower: "0 \<le> rne (x * 2 ^ m)"
    by (rule rne_nonneg)
  have "x * 2 ^ m \<le> of_int (255 * 2 ^ m)"
    using assms(2) by simp
  then have "rne (x * 2 ^ m) \<le> 255 * 2 ^ m"
    by (rule rne_le)
  then have "(of_int (rne (x * 2 ^ m)) :: real) \<le> of_int (255 * 2 ^ m)"
    by (simp only: of_int_le_iff)
  then have upper: "(of_int (rne (x * 2 ^ m)) :: real) / 2 ^ m \<le> 255"
    by (simp add: divide_le_eq)
  show ?thesis
    using lower upper by (simp add: r)
qed

section \<open>The sampler and the visibility term\<close>

lemma bind_r_Inr [simp]: "bind_r (Inr x) f = f x"
  by (simp add: bind_r_def)

lemma bind_r_Inl [simp]: "bind_r (Inl e) f = Inl e"
  by (simp add: bind_r_def)

lemma saturate_range: "0 \<le> saturate x \<and> saturate x \<le> 1"
  by (simp add: saturate_def)


lemma ggx_denominator_pos:
  fixes a u1 :: real
  assumes "0 \<le> u1" "u1 < 1" "0 < a" "a \<le> 1"
  shows "0 < 1 + (a + 1) * ((a - 1) * u1)"
proof -
  have "(a + 1) * ((a - 1) * u1) = - ((1 - a * a) * u1)"
    by (simp add: algebra_simps)
  moreover have "(1 - a * a) * u1 \<le> 1 * u1"
    using assms by (intro mult_right_mono) (simp_all add: mult_nonneg_nonneg)
  ultimately show ?thesis
    using assms by simp
qed

lemma ggx_cos_theta2_range:
  fixes a u1 :: real
  assumes "0 \<le> u1" "u1 < 1" "0 < a" "a \<le> 1"
  shows "0 < (1 - u1) / (1 + (a + 1) * ((a - 1) * u1))"
    and "(1 - u1) / (1 + (a + 1) * ((a - 1) * u1)) \<le> 1"
proof -
  have d: "0 < 1 + (a + 1) * ((a - 1) * u1)"
    using assms by (rule ggx_denominator_pos)
  show "0 < (1 - u1) / (1 + (a + 1) * ((a - 1) * u1))"
    using d assms by simp
  have "(a + 1) * ((a - 1) * u1) = - ((1 - a * a) * u1)"
    by (simp add: algebra_simps)
  moreover have "(1 - a * a) * u1 \<le> 1 * u1"
    using assms by (intro mult_right_mono) (simp_all add: mult_nonneg_nonneg)
  ultimately have "1 - u1 \<le> 1 + (a + 1) * ((a - 1) * u1)"
    by simp
  then show "(1 - u1) / (1 + (a + 1) * ((a - 1) * u1)) \<le> 1"
    using d by (simp add: divide_le_eq)
qed

lemma hemisphere_value:
  assumes "0 \<le> snd u" "snd u < 1" "0 < a" "a \<le> 1"
  shows "hemisphere_importance_sample_dggx u a = Inr (ggx_half_vector u a)"
  using ggx_denominator_pos [OF assms] ggx_cos_theta2_range [OF assms]
  by (simp add: hemisphere_importance_sample_dggx_def ggx_half_vector_def py_truediv_def
      math_sqrt_def Let_def)

lemma unit_vector:
  fixes c phi :: real
  assumes "0 \<le> c" "c \<le> 1"
  shows "(sqrt (1 - c) * cos phi)\<^sup>2 + (sqrt (1 - c) * sin phi)\<^sup>2 + (sqrt c)\<^sup>2 = 1"
proof -
  have "(sqrt (1 - c) * cos phi)\<^sup>2 + (sqrt (1 - c) * sin phi)\<^sup>2 + (sqrt c)\<^sup>2
      = (1 - c) * (cos phi)\<^sup>2 + (1 - c) * (sin phi)\<^sup>2 + c"
    using assms by (simp add: power_mult_distrib)
  also have "\<dots> = (1 - c) * ((cos phi)\<^sup>2 + (sin phi)\<^sup>2) + c"
    by (simp only: distrib_left)
  also have "\<dots> = 1"
    by simp
  finally show ?thesis .
qed

lemma ggx_half_vector_unit:
  assumes "0 \<le> snd u" "snd u < 1" "0 < a" "a \<le> 1"
  shows "(case ggx_half_vector u a of (x, y, z) \<Rightarrow> x\<^sup>2 + y\<^sup>2 + z\<^sup>2) = 1"
proof -
  let ?c = "(1 - snd u) / (1 + (a + 1) * ((a - 1) * snd u))"
  have "0 \<le> ?c" "?c \<le> 1"
    using ggx_cos_theta2_range [OF assms] by simp_all
  from unit_vector [OF this, of "2 * pi * fst u"] show ?thesis
    by (simp add: ggx_half_vector_def Let_def)
qed

lemma ggx_half_vector_z_pos:
  assumes "0 \<le> snd u" "snd u < 1" "0 < a" "a \<le> 1"
  shows "0 < z_of (ggx_half_vector u a)"
  using ggx_cos_theta2_range(1) [OF assms]
  by (simp add: ggx_half_vector_def z_of_def Let_def)

lemma ggx_radicand_pos:
  fixes a n :: real
  assumes "0 < a" "a \<le> 1"
  shows "0 < (n - n * (a * a)) * n + a * a"
proof -
  have "(n - n * (a * a)) * n = (n * n) * (1 - a * a)"
    by (simp add: algebra_simps)
  moreover have "0 \<le> (n * n) * (1 - a * a)"
  proof (rule mult_nonneg_nonneg)
    show "0 \<le> n * n" by simp
    show "0 \<le> 1 - a * a" using assms by (simp add: mult_le_one)
  qed
  moreover have "0 < a * a"
    using assms by simp
  ultimately show ?thesis
    by linarith
qed

lemma visibility_denominator_value:
  assumes "0 < a" "a \<le> 1"
  shows "visibility_denominator nov nol a
       = Inr (nol * sqrt ((nov - nov * (a * a)) * nov + a * a)
            + nov * sqrt ((nol - nol * (a * a)) * nol + a * a))"
  using ggx_radicand_pos [OF assms, of nov] ggx_radicand_pos [OF assms, of nol]
  by (simp add: visibility_denominator_def math_sqrt_def Let_def)

lemma visibility_denominator_pos:
  fixes a nov nol :: real
  assumes "0 < a" "a \<le> 1" "0 \<le> nov" "0 \<le> nol" "\<not> (nov = 0 \<and> nol = 0)"
  shows "0 < nol * sqrt ((nov - nov * (a * a)) * nov + a * a)
           + nov * sqrt ((nol - nol * (a * a)) * nol + a * a)"
proof -
  have sv: "0 < sqrt ((nov - nov * (a * a)) * nov + a * a)"
    using ggx_radicand_pos [OF assms(1,2), of nov] by simp
  have sl: "0 < sqrt ((nol - nol * (a * a)) * nol + a * a)"
    using ggx_radicand_pos [OF assms(1,2), of nol] by simp
  show ?thesis
  proof (cases "nol = 0")
    case True
    then have "0 < nov" using assms by simp
    then have "0 < nov * sqrt ((nol - nol * (a * a)) * nol + a * a)"
      using sl by simp
    moreover have "0 \<le> nol * sqrt ((nov - nov * (a * a)) * nov + a * a)"
      using assms sv by simp
    ultimately show ?thesis by linarith
  next
    case False
    then have "0 < nol" using assms by simp
    then have "0 < nol * sqrt ((nov - nov * (a * a)) * nov + a * a)"
      using sv by simp
    moreover have "0 \<le> nov * sqrt ((nol - nol * (a * a)) * nol + a * a)"
      using assms sl by simp
    ultimately show ?thesis by linarith
  qed
qed

lemma visibility_value:
  assumes "0 < a" "a \<le> 1" "0 \<le> nov" "0 \<le> nol" "\<not> (nov = 0 \<and> nol = 0)"
  shows "visibility nov nol a = Inr (visibility_term nov nol a)"
  using visibility_denominator_pos [OF assms]
  by (simp add: visibility_def visibility_denominator_value [OF assms(1,2)]
      py_truediv_def visibility_term_def)

lemma visibility_term_pos:
  assumes "0 < a" "a \<le> 1" "0 \<le> nov" "0 \<le> nol" "\<not> (nov = 0 \<and> nol = 0)"
  shows "0 < visibility_term nov nol a"
  using visibility_denominator_pos [OF assms] by (simp add: visibility_term_def)

lemma visibility_term_commute: "visibility_term nov nol a = visibility_term nol nov a"
  by (simp add: visibility_term_def add.commute)

text \<open>
  Claim C4. For \<open>nov\<close> and \<open>nol\<close> in \<open>[0, 1]\<close>, not both zero, and \<open>a\<close> in \<open>(0, 1]\<close>,
  \<open>visibility nov nol a\<close> equals \<open>visibility nol nov a\<close>; both are a value, and a positive
  one, not an exception.
\<close>

theorem visibility_symmetric:
  assumes "0 \<le> nov" "nov \<le> 1" "0 \<le> nol" "nol \<le> 1" "0 < a" "a \<le> 1"
    and "\<not> (nov = 0 \<and> nol = 0)"
  shows "visibility nov nol a = visibility nol nov a
       \<and> (\<exists>g. 0 < g \<and> visibility nov nol a = Inr g)"
proof -
  have "visibility nov nol a = Inr (visibility_term nov nol a)"
    using assms by (intro visibility_value) simp_all
  moreover have "visibility nol nov a = Inr (visibility_term nol nov a)"
    using assms by (intro visibility_value) auto
  moreover have "0 < visibility_term nov nol a"
    using assms by (intro visibility_term_pos) simp_all
  ultimately show ?thesis
    by (simp add: visibility_term_commute [of nov nol a])
qed

theorem visibility_symmetric_witness:
  "visibility 1 (1/2) 1 = visibility (1/2) 1 1 \<and> visibility 1 (1/2) 1 = Inr (1/3)"
  using visibility_symmetric [of 1 "1/2" 1]
  by (simp add: visibility_def visibility_denominator_def math_sqrt_def py_truediv_def)

lemma visibility_zero: "visibility_denominator 0 0 a = Inr 0 \<and> visibility 0 0 a = Inl ZeroDivisionError"
  by (simp add: visibility_def visibility_denominator_def math_sqrt_def py_truediv_def)

text \<open>
  In exact arithmetic the sampler is defined on all of its domain: for \<open>u0\<close> and \<open>u1\<close>
  in \<open>[0, 1)\<close> and \<open>a\<close> in \<open>(0, 1]\<close> the divisor \<open>1 + (a + 1) (a - 1) u1\<close> is positive,
  \<open>cos_theta2\<close> lies in \<open>[0, 1]\<close> and the direction has squared magnitude 1.
\<close>

lemma hemisphere_unit_vector_exact:
  assumes "0 \<le> u0" "u0 < 1" "0 \<le> u1" "u1 < 1" "0 < a" "a \<le> 1"
  shows "0 < 1 + (a + 1) * ((a - 1) * u1)
       \<and> 0 \<le> (1 - u1) / (1 + (a + 1) * ((a - 1) * u1))
       \<and> (1 - u1) / (1 + (a + 1) * ((a - 1) * u1)) \<le> 1
       \<and> (\<exists>x y z. hemisphere_importance_sample_dggx (u0, u1) a = Inr (x, y, z)
             \<and> x\<^sup>2 + y\<^sup>2 + z\<^sup>2 = 1)"
proof -
  have u: "0 \<le> snd (u0, u1)" "snd (u0, u1) < 1"
    using assms by simp_all
  obtain x y z where h: "ggx_half_vector (u0, u1) a = (x, y, z)"
    by (cases "ggx_half_vector (u0, u1) a") auto
  have "x\<^sup>2 + y\<^sup>2 + z\<^sup>2 = 1"
    using ggx_half_vector_unit [OF u assms(5,6)] by (simp add: h)
  moreover have "hemisphere_importance_sample_dggx (u0, u1) a = Inr (x, y, z)"
    using hemisphere_value [OF u assms(5,6)] by (simp add: h)
  ultimately show ?thesis
    using ggx_denominator_pos [OF assms(3-6)] ggx_cos_theta2_range [OF assms(3-6)]
    by auto
qed

lemma hemisphere_exact_example:
  "hemisphere_importance_sample_dggx (0, 3/4) 1 = Inr (sqrt 3 / 2, 0, 1 / 2)
   \<and> (\<exists>x y z. hemisphere_importance_sample_dggx (0, 3/4) 1 = Inr (x, y, z)
             \<and> x\<^sup>2 + y\<^sup>2 + z\<^sup>2 = 1)"
  using hemisphere_unit_vector_exact [of 0 "3/4" 1]
  by (simp add: hemisphere_importance_sample_dggx_def py_truediv_def math_sqrt_def
      real_sqrt_divide)

lemma hemisphere_fp_exact:
  "hemisphere_importance_sample_dggx_fp (\<lambda>x. x) pi cos sin u a
     = hemisphere_importance_sample_dggx u a"
  by (simp add: hemisphere_importance_sample_dggx_fp_def hemisphere_importance_sample_dggx_def
      fp_truediv_def fp_sqrt_def py_truediv_def math_sqrt_def Let_def)

lemma hemisphere_fp_ValueError:
  assumes "rnd (1 + rnd (rnd (a + 1) * rnd (rnd (a - 1) * snd u))) = divisor"
    and "divisor \<noteq> 0"
    and "rnd (rnd (1 - snd u) / divisor) = cos_theta2"
    and "0 \<le> cos_theta2"
    and "rnd (1 - cos_theta2) < 0"
  shows "hemisphere_importance_sample_dggx_fp rnd math_pi math_cos math_sin u a = Inl ValueError"
  using assms
  by (simp add: hemisphere_importance_sample_dggx_fp_def fp_truediv_def fp_sqrt_def Let_def)

text \<open>
  Claim C3. In double precision the claim fails: at \<open>a = 1e-9\<close> and \<open>u = (0.75, 0.75)\<close>,
  a point of the Hammersley sequence (sample 3 of 4), the rounded divisor is
  \<open>0.25 - 2 ^ -53\<close>, \<open>cos_theta2\<close> rounds to \<open>1 + 2 ^ -51\<close>, above 1, and
  \<open>math.sqrt(1.0 - cos_theta2)\<close> raises \<open>ValueError\<close>. The dot products of the
  integrator are clamped against such overshoot (\<open>saturate\<close>); \<open>cos_theta2\<close> is not.
\<close>

theorem hemisphere_double_raises:
  "hemisphere_importance_sample_dggx_fp round_double (round_double pi)
     (\<lambda>x. round_double (cos x)) (\<lambda>x. round_double (sin x))
     (3 / 4, 3 / 4) (round_double (1 / 10 ^ 9)) = Inl ValueError"
proof -
  have a: "round_double (1 / 10 ^ 9) = (4835703278458517 / 2 ^ 82)"
    by (subst round_double_small [where n = 30]) (simp_all add: rne_def)
  have t1: "round_double ((4835703278458517 / 2 ^ 82) + 1) = (281474976992131 / 2 ^ 48)"
    by (subst round_double_large [where n = 0]) (simp_all add: rne_def)
  have t2: "round_double ((4835703278458517 / 2 ^ 82) - 1) = (- 9007199245733793 / 2 ^ 53)"
    by (subst round_double_small [where n = 1]) (simp_all add: rne_def)
  have t3: "round_double ((- 9007199245733793 / 2 ^ 53) * (3 / 4)) = (- 6755399434300345 / 2 ^ 53)"
    by (subst round_double_small [where n = 1]) (simp_all add: rne_def)
  have t4: "round_double ((281474976992131 / 2 ^ 48) * (- 6755399434300345 / 2 ^ 53)) = (- 6755399441055745 / 2 ^ 53)"
    by (subst round_double_small [where n = 1]) (simp_all add: rne_def)
  have t5: "round_double (1 + (- 6755399441055745 / 2 ^ 53)) = (2251799813685247 / 2 ^ 53)"
    by (subst round_double_small [where n = 3]) (simp_all add: rne_def)
  have t6: "round_double (1 - 3 / 4) = (1 / 4)"
    by (subst round_double_small [where n = 2]) (simp_all add: rne_def)
  have c: "round_double ((1 / 4) / (2251799813685247 / 2 ^ 53)) = (2251799813685249 / 2 ^ 51)"
    by (subst round_double_large [where n = 0]) (simp_all add: rne_def)
  have d: "round_double (1 - (2251799813685249 / 2 ^ 51)) = (- 1 / 2 ^ 51)"
    by (subst round_double_small [where n = 51]) (simp_all add: rne_def)
  show ?thesis
  proof (rule hemisphere_fp_ValueError)
    show "round_double (1 + round_double (round_double (round_double (1 / 10 ^ 9) + 1)
        * round_double (round_double (round_double (1 / 10 ^ 9) - 1) * snd (3 / 4, 3 / 4 :: real))))
        = (2251799813685247 / 2 ^ 53)"
      by (simp only: snd_conv a t1 t2 t3 t4 t5)
    show "(2251799813685247 / 2 ^ 53) \<noteq> (0::real)"
      by simp
    show "round_double (round_double (1 - snd (3 / 4, 3 / 4 :: real)) / (2251799813685247 / 2 ^ 53)) = (2251799813685249 / 2 ^ 51)"
      by (simp only: snd_conv t6 c)
    show "(0::real) \<le> (2251799813685249 / 2 ^ 51)"
      by simp
    show "round_double (1 - (2251799813685249 / 2 ^ 51)) < 0"
      by (simp only: d) simp
  qed
qed

section \<open>The integrator\<close>

lemma hammersley_u1_range:
  "0 \<le> (of_int (hammersley_bits i) :: real) / 2 ^ 32 \<and> (of_int (hammersley_bits i) :: real) / 2 ^ 32 < 1"
proof -
  have "0 \<le> hammersley_bits i" "hammersley_bits i < 2 ^ 32"
    using hammersley_bits_range [of i] by simp_all
  then have "(0::real) \<le> of_int (hammersley_bits i)" "(of_int (hammersley_bits i) :: real) < of_int (2 ^ 32)"
    by (simp_all only: of_int_0_le_iff of_int_less_iff)
  then show ?thesis
    by simp
qed




lemma sum_list_upt: "(\<Sum>i\<leftarrow>[0..<n]. f i) = (\<Sum>i<n. (f i :: real))"
  by (simp add: interv_sum_list_conv_sum_set_nat atLeast0LessThan)



lemma hammersley_0: "hammersley_bits 0 = 0"
  by (simp add: hammersley_bits_def)

lemma saturate_clamp01: "saturate x = clamp01 x"
  by (simp add: saturate_def clamp01_def)

lemma dfg_sample_reference:
  assumes "0 < a" "a \<le> 1"
    and u: "hammersley i N = Inr u"
    and h: "hemisphere_importance_sample_dggx u a = Inr h"
    and g: "0 < reference_nol nov h \<Longrightarrow> visibility nov (reference_nol nov h) a = Inr g"
  shows "dfg_sample visibility (sqrt (1 - nov * nov), 0, nov) nov a N r i
       = Inr (fst r + fst (reference_contribution nov h g),
              snd r + snd (reference_contribution nov h g))"
proof -
  obtain hx hy hz where hxyz: "h = (hx, hy, hz)"
    by (cases h) auto
  have N: "N \<noteq> 0"
    using u by (auto simp add: hammersley_def py_truediv_def Let_def)
  then have "u = (of_int i / of_int N, of_int (hammersley_bits i) / 2 ^ 32)"
    using u hammersley_value [of N i] by simp
  then have u1: "0 \<le> snd u" "snd u < 1"
    using hammersley_u1_range [of i] by simp_all
  have "h = ggx_half_vector u a"
    using h hemisphere_value [OF u1 assms(1,2)] by simp
  then have "0 < z_of h"
    using ggx_half_vector_z_pos [OF u1 assms(1,2)] by simp
  then have noh: "0 < clamp01 hz"
    by (simp add: hxyz z_of_def clamp01_def)
  have nol: "saturate (z_of (reflect (sqrt (1 - nov * nov), 0, nov) h)) = reference_nol nov h"
    by (simp add: hxyz reflect_def dot_def z_of_def saturate_clamp01 reference_nol_def
        power2_eq_square algebra_simps)
  show ?thesis
  proof (cases "0 < reference_nol nov h")
    case True
    then show ?thesis
      using noh g [OF True] nol
      by (simp add: dfg_sample_def u h Let_def py_truediv_def)
         (simp add: hxyz reference_contribution_def reference_nol_def dot_def z_of_def
           saturate_clamp01 power2_eq_square Let_def algebra_simps)
  next
    case False
    then show ?thesis
      using nol
      by (simp add: dfg_sample_def u h Let_def)
         (simp add: hxyz reference_contribution_def reference_nol_def Let_def algebra_simps)
  qed
qed


lemma dfg_loop_reference:
  assumes "0 < a" "a \<le> 1"
    and sampler: "\<And>i. i \<in> set xs \<Longrightarrow>
        \<exists>u. hammersley (int i) N = Inr u \<and> hemisphere_importance_sample_dggx u a = Inr (h i)"
    and vis: "\<And>i. i \<in> set xs \<Longrightarrow> 0 < reference_nol nov (h i) \<Longrightarrow>
        visibility nov (reference_nol nov (h i)) a = Inr (vis i)"
  shows "dfg_loop visibility (sqrt (1 - nov * nov), 0, nov) nov a N (map int xs) r
       = Inr (fst r + (\<Sum>i\<leftarrow>xs. fst (reference_contribution nov (h i) (vis i))),
              snd r + (\<Sum>i\<leftarrow>xs. snd (reference_contribution nov (h i) (vis i))))"
  using sampler vis
proof (induction xs arbitrary: r)
  case Nil
  show ?case by simp
next
  case (Cons x xs)
  obtain u where u: "hammersley (int x) N = Inr u"
      and hx: "hemisphere_importance_sample_dggx u a = Inr (h x)"
    using Cons.prems(1) [of x] by auto
  have step: "dfg_sample visibility (sqrt (1 - nov * nov), 0, nov) nov a N r (int x)
      = Inr (fst r + fst (reference_contribution nov (h x) (vis x)),
             snd r + snd (reference_contribution nov (h x) (vis x)))"
    using assms(1,2) u hx
  proof (rule dfg_sample_reference)
    assume "0 < reference_nol nov (h x)"
    then show "visibility nov (reference_nol nov (h x)) a = Inr (vis x)"
      using Cons.prems(2) [of x] by simp
  qed
  have rest: "dfg_loop visibility (sqrt (1 - nov * nov), 0, nov) nov a N (map int xs) r'
       = Inr (fst r' + (\<Sum>i\<leftarrow>xs. fst (reference_contribution nov (h i) (vis i))),
              snd r' + (\<Sum>i\<leftarrow>xs. snd (reference_contribution nov (h i) (vis i))))" for r'
    using Cons.prems by (intro Cons.IH) simp_all
  show ?case
    by (simp add: step rest add.assoc)
qed

text \<open>
  Claim C1. For \<open>nov\<close> and \<open>a\<close> in \<open>(0, 1]\<close> and a sample count \<open>N \<ge> 1\<close>: when, for
  every sample index \<open>i < N\<close>, \<open>h i\<close> is the half vector the sampler returns for the point
  \<open>hammersley i N\<close>, and \<open>vis i\<close> is what \<open>visibility nov nol a\<close> returns for a sample
  with \<open>nol > 0\<close>, then \<open>calculate_dfg nov a N\<close> returns the reference split-sum: the
  sum of the contributions \<open>vis nol (voh / noh) (1 - voh) ^ 5\<close> and
  \<open>vis nol (voh / noh)\<close> of the samples with \<open>nol > 0\<close>, scaled by \<open>4 / N\<close>.
\<close>

theorem calculate_dfg_split_sum:
  assumes "0 < nov" "nov \<le> 1" "0 < a" "a \<le> 1" "1 \<le> N"
    and "\<And>i. i < N \<Longrightarrow>
        \<exists>u. hammersley (int i) (int N) = Inr u \<and> hemisphere_importance_sample_dggx u a = Inr (h i)"
    and "\<And>i. i < N \<Longrightarrow> 0 < reference_nol nov (h i) \<Longrightarrow>
        visibility nov (reference_nol nov (h i)) a = Inr (vis i)"
  shows "calculate_dfg nov a (int N) = Inr (reference_split_sum nov N h vis)"
proof -
  have "0 \<le> 1 - nov * nov"
    using assms(1,2) by (simp add: mult_le_one)
  then have v0: "math_sqrt (1 - nov * nov) = Inr (sqrt (1 - nov * nov))"
    by (simp add: math_sqrt_def)
  have scale: "py_truediv 4 (real N) = Inr (4 / real N)"
    using assms(5) by (simp add: py_truediv_def)
  let ?r = "(0, 0) :: real \<times> real"
  have loop: "dfg_loop visibility (sqrt (1 - nov * nov), 0, nov) nov a (int N) (map int [0..<N]) ?r
      = Inr (fst ?r + (\<Sum>i\<leftarrow>[0..<N]. fst (reference_contribution nov (h i) (vis i))),
             snd ?r + (\<Sum>i\<leftarrow>[0..<N]. snd (reference_contribution nov (h i) (vis i))))"
  proof (rule dfg_loop_reference [OF assms(3,4)])
    fix i
    assume "i \<in> set [0..<N]"
    then have i: "i < N" by simp
    show "\<exists>u. hammersley (int i) (int N) = Inr u
        \<and> hemisphere_importance_sample_dggx u a = Inr (h i)"
      using i by (rule assms(6))
    show "visibility nov (reference_nol nov (h i)) a = Inr (vis i)"
      if "0 < reference_nol nov (h i)"
      using i that by (rule assms(7))
  qed
  show ?thesis
    by (simp add: calculate_dfg_def calculate_dfg_with_def py_range_def Let_def v0 scale loop
        sum_list_upt reference_split_sum_def mult.commute)
qed


lemma sqrt_16_25: "sqrt (16 / 25) = 4 / 5"
  by (rule real_sqrt_unique) (simp_all add: power2_eq_square)

lemma sqrt_9_25: "sqrt (9 / 25) = 3 / 5"
  by (rule real_sqrt_unique) (simp_all add: power2_eq_square)

lemma sqrt_373_625: "sqrt (373 / 625) = sqrt 373 / 25"
proof -
  have "sqrt 625 = 25"
    by (rule real_sqrt_unique) (simp_all add: power2_eq_square)
  then show ?thesis
    by (simp add: real_sqrt_divide)
qed

lemma hammersley_1: "hammersley_bits 1 = 2 ^ 31"
  by (simp add: hammersley_bits_def)

lemma sample_points_2:
  "hammersley 0 2 = Inr (0, 0)" "hammersley 1 2 = Inr (1 / 2, 1 / 2)"
  by (simp_all add: hammersley_def py_truediv_def hammersley_0 hammersley_1)

lemma half_vectors_2:
  "hemisphere_importance_sample_dggx (0, 0) (3 / 4) = Inr (0, 0, 1)"
  "hemisphere_importance_sample_dggx (1 / 2, 1 / 2) (3 / 4) = Inr (- (3 / 5), 0, 4 / 5)"
  by (simp_all add: hemisphere_importance_sample_dggx_def py_truediv_def math_sqrt_def
      sqrt_16_25 sqrt_9_25)

lemma light_cosines_2:
  "reference_nol 1 (0, 0, 1) = 1" "reference_nol 1 (- (3 / 5), 0, 4 / 5) = 7 / 25"
  by (simp_all add: reference_nol_def clamp01_def)

lemma visibilities_2:
  "visibility 1 1 (3 / 4) = Inr (1 / 4)"
  "visibility 1 (7 / 25) (3 / 4) = Inr (25 / (2 * (7 + sqrt 373)))"
proof -
  show "visibility 1 1 (3 / 4) = Inr (1 / 4)"
    by (simp add: visibility_def visibility_denominator_def math_sqrt_def py_truediv_def)
  have "(7 / 25 - 7 / 25 * (3 / 4 * (3 / 4))) * (7 / 25) + 3 / 4 * (3 / 4) = (373 / 625 :: real)"
    by simp
  moreover have "(1 - 1 * (3 / 4 * (3 / 4))) * 1 + 3 / 4 * (3 / 4) = (1 :: real)"
    by simp
  moreover have "0 < 7 + sqrt 373"
    by (rule add_pos_nonneg) simp_all
  ultimately show "visibility 1 (7 / 25) (3 / 4) = Inr (25 / (2 * (7 + sqrt 373)))"
    by (simp add: visibility_def visibility_denominator_def math_sqrt_def py_truediv_def
        Let_def sqrt_373_625 field_simps)
qed

lemma contribution_sample_1:
  fixes s :: real
  assumes "0 \<le> s"
  shows "reference_contribution 1 (- (3 / 5), 0, 4 / 5) (25 / (2 * (7 + s)))
      = (7 / (6250 * (7 + s)), 7 / (2 * (7 + s)))"
proof -
  have pos: "7 + s \<noteq> 0" "0 < 7 + s"
    using assms by simp_all
  have "(25 / (2 * (7 + s))) * (7 / 25) * ((4 / 5) / (4 / 5)) = 7 / (2 * (7 + s))"
    using pos by (simp add: field_simps)
  moreover have "(25 / (2 * (7 + s))) * (7 / 25) * ((4 / 5) / (4 / 5)) * (1 - 4 / 5) ^ 5
      = 7 / (6250 * (7 + s))"
    using pos by (simp add: field_simps power_divide)
  moreover have "clamp01 (4 / 5) = 4 / 5" "clamp01 (7 / 25) = 7 / 25"
    by (simp_all add: clamp01_def)
  moreover have "sqrt (1 - 1\<^sup>2) * - (3 / 5) + 0 * 0 + 1 * (4 / 5) = (4 / 5 :: real)"
    "2 * (4 / 5) * (4 / 5) - 1 = (7 / 25 :: real)"
    by simp_all
  ultimately show ?thesis
    unfolding reference_contribution_def Let_def prod.case
    by (simp only: if_True) simp
qed

theorem calculate_dfg_split_sum_witness:
  "calculate_dfg 1 (3 / 4) (int 2)
     = Inr [7 / (3125 * (7 + sqrt 373)), 1 / 2 + 7 / (7 + sqrt 373)]"
proof -
  let ?h = "\<lambda>i::nat. if i = 0 then (0, 0, 1) else (- (3 / 5), 0, 4 / 5 :: real)"
  let ?vis = "\<lambda>i::nat. if i = 0 then 1 / 4 else 25 / (2 * (7 + sqrt 373))"
  have sampler: "\<exists>u. hammersley (int i) (int 2) = Inr u
      \<and> hemisphere_importance_sample_dggx u (3 / 4) = Inr (?h i)" if "i < 2" for i
  proof -
    from that consider "i = 0" | "i = 1" by linarith
    then show ?thesis
    proof cases
      case 1
      then show ?thesis
        using sample_points_2(1) half_vectors_2(1) by simp
    next
      case 2
      have "hammersley (int 1) (int 2) = Inr (1 / 2, 1 / 2)"
        using sample_points_2(2) by simp
      moreover have "hemisphere_importance_sample_dggx (1 / 2, 1 / 2) (3 / 4) = Inr (?h 1)"
        using half_vectors_2(2) by simp
      ultimately show ?thesis
        unfolding 2 by (intro exI [of _ "(1 / 2, 1 / 2)"] conjI)
    qed
  qed
  have vis: "visibility 1 (reference_nol 1 (?h i)) (3 / 4) = Inr (?vis i)"
    if "i < 2" "0 < reference_nol 1 (?h i)" for i
  proof -
    from that(1) have "i = 0 \<or> i = 1" by auto
    then show ?thesis
      by (auto simp add: light_cosines_2 visibilities_2)
  qed
  have "calculate_dfg 1 (3 / 4) (int 2) = Inr (reference_split_sum 1 2 ?h ?vis)"
    using calculate_dfg_split_sum [of 1 "3 / 4" 2 ?h ?vis, OF _ _ _ _ _ sampler vis]
    by simp
  moreover have "reference_contribution 1 (0, 0, 1) (1 / 4) = (0, 1 / 4)"
    by (simp add: reference_contribution_def clamp01_def)
  moreover have "reference_contribution 1 (- (3 / 5), 0, 4 / 5) (25 / (2 * (7 + sqrt 373)))
      = (7 / (6250 * (7 + sqrt 373)), 7 / (2 * (7 + sqrt 373)))"
    by (rule contribution_sample_1) simp
  moreover have "0 < 7 + sqrt 373"
    by (rule add_pos_nonneg) simp_all
  ultimately show ?thesis
    by (simp add: reference_split_sum_def lessThan_Suc numeral_2_eq_2 field_simps)
qed







lemma dfg_sample_vis_cong:
  assumes "\<And>nol. 0 < nol \<Longrightarrow> vis' nov nol a = vis nov nol a"
  shows "dfg_sample vis' v nov a N r i = dfg_sample vis v nov a N r i"
  by (auto simp add: dfg_sample_def bind_r_def Let_def assms split: sum.splits)

lemma dfg_loop_vis_cong:
  assumes "\<And>nol. 0 < nol \<Longrightarrow> vis' nov nol a = vis nov nol a"
  shows "dfg_loop vis' v nov a N xs r = dfg_loop vis v nov a N xs r"
proof (induction xs arbitrary: r)
  case Nil
  show ?case by simp
next
  case (Cons x xs)
  have "dfg_loop vis' v nov a N xs = dfg_loop vis v nov a N xs"
    by (rule ext) (rule Cons.IH)
  then show ?case
    by (simp add: dfg_sample_vis_cong [of vis' nov a vis, OF assms])
qed

text \<open>
  Claim C6. At \<open>nov = 0\<close> and \<open>nol = 0\<close> the divisor \<open>ggxv + ggxl\<close> is exactly 0 and
  the division of \<open>visibility\<close> fails. The integrator does not reach it: it calls the
  visibility function only at arguments with \<open>nol > 0\<close>, that is to say, its result
  is the same with any function that agrees with \<open>visibility\<close> at those arguments.
\<close>

theorem visibility_zero_denominator_unreachable:
  "visibility_denominator 0 0 a = Inr 0 \<and> visibility 0 0 a = Inl ZeroDivisionError
   \<and> (\<forall>vis'. (\<forall>nol. 0 < nol \<longrightarrow> vis' nov nol a = visibility nov nol a)
         \<longrightarrow> calculate_dfg_with vis' nov a N = calculate_dfg nov a N)"
proof -
  have "calculate_dfg_with vis' nov a N = calculate_dfg nov a N"
    if "\<forall>nol. 0 < nol \<longrightarrow> vis' nov nol a = visibility nov nol a" for vis'
  proof -
    have "dfg_loop vis' v nov a N xs r = dfg_loop visibility v nov a N xs r" for v xs r
      using that by (intro dfg_loop_vis_cong) simp
    then show ?thesis
      by (simp add: calculate_dfg_def calculate_dfg_with_def)
  qed
  then show ?thesis
    using visibility_zero [of a] by blast
qed

theorem visibility_zero_denominator_unreachable_witness:
  "visibility 0 0 1 = Inl ZeroDivisionError
   \<and> calculate_dfg_with (\<lambda>nov nol a. if 0 < nol then visibility nov nol a else Inl ValueError)
        (1/2) 1 1 = calculate_dfg (1/2) 1 1"
  using visibility_zero_denominator_unreachable [of 1 "1/2" 1]
  by simp

section \<open>Writing the texture\<close>

lemma saturate_min_max: "saturate c = min 1 (max 0 c)"
  by (simp add: saturate_def min.commute max.commute)

lemma ppm_product_range:
  "0 \<le> round_double (saturate c * 255) \<and> round_double (saturate c * 255) \<le> 255"
proof -
  have "0 \<le> saturate c * 255" "saturate c * 255 \<le> 255"
    using saturate_range [of c] by simp_all
  then show ?thesis
    by (rule round_double_byte)
qed

lemma py_int_nonneg: "0 \<le> x \<Longrightarrow> py_int x = \<lfloor>x\<rfloor>"
  by (simp add: py_int_def)

lemma ppm_byte_range:
  "py_int (round_double (saturate c * 255)) = \<lfloor>round_double (saturate c * 255)\<rfloor>
   \<and> 0 \<le> \<lfloor>round_double (saturate c * 255)\<rfloor> \<and> \<lfloor>round_double (saturate c * 255)\<rfloor> \<le> 255"
  using ppm_product_range [of c] by (simp add: py_int_nonneg floor_le_iff)

lemma ppm_texel_bytes:
  "write_dfg float16_bytes fp [dfg1, dfg2] ''ppm''
     = Inr (fp @ [word_of_int \<lfloor>round_double (saturate dfg1 * 255)\<rfloor>,
                  word_of_int \<lfloor>round_double (saturate dfg2 * 255)\<rfloor>, 0])"
  using ppm_byte_range [of dfg1] ppm_byte_range [of dfg2]
  by (simp add: write_dfg_def struct_pack_BBB_def)

lemma write_dfg_prefix:
  "write_dfg float16_bytes fp dfg fmt = Inr fp' \<Longrightarrow> prefix fp fp'"
  by (auto simp add: write_dfg_def bind_r_def split: if_splits sum.splits)

lemma texel_prefix:
  "texel float16_bytes args res fp ts = Inr fp' \<Longrightarrow> prefix fp fp'"
  by (auto simp add: texel_def bind_r_def Let_def split: prod.splits sum.splits
      dest: write_dfg_prefix)

lemma texel_loop_prefix:
  "prefix fp (fst (texel_loop float16_bytes args res xs fp))"
proof (induction xs arbitrary: fp)
  case Nil
  show ?case by simp
next
  case (Cons ts xs)
  show ?case
  proof (cases "texel float16_bytes args res fp ts")
    case (Inl e)
    then show ?thesis by simp
  next
    case (Inr fp')
    then have "prefix fp fp'"
      by (rule texel_prefix)
    moreover have "prefix fp' (fst (texel_loop float16_bytes args res xs fp'))"
      by (rule Cons.IH)
    ultimately show ?thesis
      using Inr by (auto intro: prefix_order.trans)
  qed
qed

lemma main_ppm_header:
  assumes "file_format args = ''ppm''"
  shows "prefix (ppm_header (resolution args)) (fst (main float16_bytes args))"
  using assms
  by (simp add: main_def Let_def texel_loop_prefix split: resolution_arg.splits)

lemma main_header_given:
  assumes "file_format args = ''ppm''" "resolution args = Given s"
  shows "prefix (map of_char (''P6'' @ [CHR 0x0A] @ s @ '' '' @ s @ [CHR 0x0A] @ ''255''
                   @ [CHR 0x0A]))
           (fst (main float16_bytes args))"
  using assms main_ppm_header [of args float16_bytes]
  by (simp add: ppm_header_def encode_def resolution_text_def)

lemma main_header_default:
  assumes "file_format args = ''ppm''" "resolution args = Default_64"
  shows "prefix (map of_char (''P6'' @ [CHR 0x0A] @ ''64 64'' @ [CHR 0x0A] @ ''255''
                   @ [CHR 0x0A]))
           (fst (main float16_bytes args))"
  using assms main_ppm_header [of args float16_bytes]
  by (simp add: ppm_header_def encode_def resolution_text_def)

text \<open>
  Claim C7. In the portable-pixel-map format \<open>write_dfg\<close> appends exactly three bytes
  for a texel \<open>[dfg1, dfg2]\<close>: the integer parts of the double products
  \<open>clamp(dfg1, 0, 1) * 255\<close> and \<open>clamp(dfg2, 0, 1) * 255\<close>, both within \<open>0..255\<close>, and a
  zero byte. The file \<open>main\<close> writes in that format begins with the bytes of \<open>P6\<close>,
  newline, \<open>R\<close>, space, \<open>R\<close>, newline, \<open>255\<close>, newline, where \<open>R\<close> is the resolution
  text given on the command line, or \<open>64\<close> when none is given.
\<close>

theorem write_dfg_ppm:
  "write_dfg float16_bytes fp [dfg1, dfg2] ''ppm''
     = Inr (fp @ [word_of_int \<lfloor>round_double (min 1 (max 0 dfg1) * 255)\<rfloor>,
                  word_of_int \<lfloor>round_double (min 1 (max 0 dfg2) * 255)\<rfloor>, 0])
   \<and> 0 \<le> \<lfloor>round_double (min 1 (max 0 dfg1) * 255)\<rfloor>
   \<and> \<lfloor>round_double (min 1 (max 0 dfg1) * 255)\<rfloor> \<le> 255
   \<and> 0 \<le> \<lfloor>round_double (min 1 (max 0 dfg2) * 255)\<rfloor>
   \<and> \<lfloor>round_double (min 1 (max 0 dfg2) * 255)\<rfloor> \<le> 255
   \<and> (file_format args = ''ppm'' \<longrightarrow>
        (\<forall>s. resolution args = Given s \<longrightarrow>
           prefix (map of_char (''P6'' @ [CHR 0x0A] @ s @ '' '' @ s @ [CHR 0x0A] @ ''255''
                     @ [CHR 0x0A]))
             (fst (main float16_bytes args)))
      \<and> (resolution args = Default_64 \<longrightarrow>
           prefix (map of_char (''P6'' @ [CHR 0x0A] @ ''64 64'' @ [CHR 0x0A] @ ''255''
                     @ [CHR 0x0A]))
             (fst (main float16_bytes args))))"
  using ppm_byte_range [of dfg1] ppm_byte_range [of dfg2]
    ppm_texel_bytes [of float16_bytes fp dfg1 dfg2]
    main_header_given [of args _ float16_bytes] main_header_default [of args float16_bytes]
  by (simp add: saturate_min_max)

lemma round_double_06_255:
  "round_double (5404319552844595 / 2 ^ 53 * 255) = 153"
  by (subst round_double_large [where n = 7]) (simp_all add: rne_def)

lemma round_double_255: "round_double 255 = 255"
  by (subst round_double_large [where n = 7]) (simp_all add: rne_def)

theorem write_dfg_ppm_witness:
  "write_dfg (\<lambda>c. []) [] [5404319552844595 / 2 ^ 53, 2] ''ppm'' = Inr [153, 255, 0]
   \<and> prefix [0x50, 0x36, 0x0A, 0x31, 0x32, 0x38, 0x20, 0x31, 0x32, 0x38, 0x0A,
             0x32, 0x35, 0x35, 0x0A]
        (fst (main (\<lambda>c. [])
               \<lparr>resolution = Given ''128'', samples = 1024, file_format = ''ppm''\<rparr>))
   \<and> prefix [0x50, 0x36, 0x0A, 0x36, 0x34, 0x20, 0x36, 0x34, 0x0A, 0x32, 0x35, 0x35, 0x0A]
        (fst (main (\<lambda>c. [])
               \<lparr>resolution = Default_64, samples = 1024, file_format = ''ppm''\<rparr>))"
proof -
  have a: "min 1 (max 0 (5404319552844595 / 2 ^ 53)) * 255 = (5404319552844595 / 2 ^ 53 * 255 :: real)"
    by simp
  have b: "min 1 (max 0 2) * 255 = (255 :: real)"
    by simp
  show ?thesis
    using write_dfg_ppm [of "\<lambda>c. []" "[]" "5404319552844595 / 2 ^ 53" 2
        "\<lparr>resolution = Given ''128'', samples = 1024, file_format = ''ppm''\<rparr>"]
      write_dfg_ppm [of "\<lambda>c. []" "[]" "5404319552844595 / 2 ^ 53" 2
        "\<lparr>resolution = Default_64, samples = 1024, file_format = ''ppm''\<rparr>"]
    unfolding a b round_double_06_255 round_double_255
    by simp
qed

text \<open>
  Claim C10. For a texel of length 2 and a format other than \<open>raw\<close> and \<open>ppm\<close>,
  \<open>write_dfg\<close> returns without raising and leaves the file as it was.
\<close>

theorem write_dfg_unknown_format:
  assumes "length dfg = 2" "fmt \<noteq> ''raw''" "fmt \<noteq> ''ppm''"
  shows "write_dfg float16_bytes fp dfg fmt = Inr fp"
  using assms by (simp add: write_dfg_def)

theorem write_dfg_unknown_format_witness:
  "write_dfg (\<lambda>c. [0, 0]) [80, 54] [1/2, 1/4] ''png'' = Inr [80, 54]"
  using write_dfg_unknown_format [of "[1/2, 1/4]" "''png''" "\<lambda>c. [0, 0]" "[80, 54]"]
  by simp

text \<open>
  A resolution given on the command line is a string: the header is written, then
  \<open>range\<close> raises.
\<close>

lemma main_given_resolution:
  "main float16_bytes \<lparr>resolution = Given s, samples = n, file_format = ''ppm''\<rparr>
     = (ppm_header (Given s), Some TypeError)"
  by (simp add: main_def)

end
